theory Spec2Isabelle
  imports
    Complex_Main
    "HOL-Library.Word"
    "HOL-Library.Mapping"
    "HOL-Library.AList_Mapping"
begin

section \<open>Events and their JSON encoding (types.go)\<close>

text \<open>
  The values an event's parameter bag (\<^verbatim>\<open>map[string]interface{}\<close>) holds in the
  harness are Go \<^verbatim>\<open>int\<close>s (\<^verbatim>\<open>request\<close>, \<^verbatim>\<open>0\<close>, \<^verbatim>\<open>int(id)\<close>) and \<^verbatim>\<open>uint64\<close>
  node identifiers. An \<^verbatim>\<open>interface{}\<close> may hold any Go value, among them values
  that \<^verbatim>\<open>encoding/json\<close> refuses (a channel, a function): \<open>PUnsupported\<close> stands
  for those, so that the error return of \<^verbatim>\<open>json.Marshal\<close> is a branch of the model.
\<close>

datatype param =
    PInt int
  | PUint64 "64 word"
  | PString string
  | PBool bool
  | PUnsupported

text \<open>
  \<^verbatim>\<open>
  type Event struct {
      Name   string
      Node   uint64 `json:"-"`
      Params map[string]interface{}
      Reset  bool
  }
  \<close>
  A Go map is represented by the list of its entries in ascending key order, which is
  the order in which \<^verbatim>\<open>encoding/json\<close> writes them; \<open>None\<close> is the \<^verbatim>\<open>nil\<close> map.
\<close>

record Event =
  Name :: string
  Node :: "64 word"
  Params :: "(string \<times> param) list option"
  Reset :: bool

datatype json =
    JNull
  | JBool bool
  | JNum int
  | JStr string
  | JArr "json list"
  | JObj "(string \<times> json) list"

datatype marshal_error = UnsupportedType

fun marshal_param :: "param \<Rightarrow> marshal_error + json" where
  "marshal_param (PInt i) = Inr (JNum i)"
| "marshal_param (PUint64 w) = Inr (JNum (uint w))"
| "marshal_param (PString s) = Inr (JStr s)"
| "marshal_param (PBool b) = Inr (JBool b)"
| "marshal_param PUnsupported = Inl UnsupportedType"

fun marshal_params :: "(string \<times> param) list \<Rightarrow> marshal_error + (string \<times> json) list" where
  "marshal_params [] = Inr []"
| "marshal_params ((k, v) # kvs) =
     (case marshal_param v of
        Inl e \<Rightarrow> Inl e
      | Inr j \<Rightarrow> (case marshal_params kvs of
                   Inl e \<Rightarrow> Inl e
                 | Inr js \<Rightarrow> Inr ((k, j) # js)))"

text \<open>
  The exported fields are written in declaration order under their Go names; the
  tag \<^verbatim>\<open>json:"-"\<close> makes the encoder skip \<^verbatim>\<open>Node\<close>. A \<^verbatim>\<open>nil\<close> map is written
  as \<^verbatim>\<open>null\<close>.
\<close>

definition marshal_event :: "Event \<Rightarrow> marshal_error + json" where
  "marshal_event e =
     (case Params e of
        None \<Rightarrow> Inr (JObj [(''Name'', JStr (Name e)), (''Params'', JNull),
                            (''Reset'', JBool (Reset e))])
      | Some kvs \<Rightarrow>
          (case marshal_params kvs of
             Inl err \<Rightarrow> Inl err
           | Inr js \<Rightarrow> Inr (JObj [(''Name'', JStr (Name e)), (''Params'', JObj js),
                                  (''Reset'', JBool (Reset e))])))"

fun marshal_events :: "Event list \<Rightarrow> marshal_error + json list" where
  "marshal_events [] = Inr []"
| "marshal_events (e # es) =
     (case marshal_event e of
        Inl err \<Rightarrow> Inl err
      | Inr j \<Rightarrow> (case marshal_events es of
                   Inl err \<Rightarrow> Inl err
                 | Inr js \<Rightarrow> Inr (j # js)))"

text \<open>
  Modelled from the spec: the generic container \<^verbatim>\<open>List[T]\<close> and its JSON encoding are
  not part of the available sources. Section 6.2 of the specification fixes the wire
  format of an event trace as a JSON array of event objects; \<^verbatim>\<open>Append\<close> adds an
  element at the end of the sequence.
\<close>

definition Append :: "'a list \<Rightarrow> 'a \<Rightarrow> 'a list" where
  "Append l x = l @ [x]"

definition marshal_list :: "Event list \<Rightarrow> marshal_error + json" where
  "marshal_list l =
     (case marshal_events l of Inl err \<Rightarrow> Inl err | Inr js \<Rightarrow> Inr (JArr js))"

text \<open>Reading a member of a JSON object; \<open>None\<close> when the member is absent.\<close>

fun member :: "json \<Rightarrow> string \<Rightarrow> json option" where
  "member (JObj kvs) k = map_of kvs k"
| "member _ k = None"


section \<open>The model-checker client (tlc\_client.go)\<close>

text \<open>
  \<^verbatim>\<open>
  type TLCResponse struct {
      States []string
      Keys   []int64
  }
  \<close>
  The client turns a response into a slice of \<^verbatim>\<open>State{Repr, Key}\<close> values.
\<close>

record State =
  Repr :: string
  Key :: "64 word"

record TLCClient =
  ClientAddr :: string

datatype error =
    ErrMarshallingJson marshal_error
  | ErrSendingTrace string
  | ErrResponse string

text \<open>
  The HTTP exchange is the environment of \<open>SendTrace\<close>: a function from the URL and
  the request body to what the exchange yields. \<open>Inl (ErrSendingTrace m)\<close> is a
  failing \<^verbatim>\<open>http.Post\<close>; the processing of the response is elided in the source
  (it reads the body and decodes a \<^verbatim>\<open>TLCResponse\<close>), so its outcome, an error
  or the decoded states, is part of what the environment returns.
\<close>

type_synonym http = "string \<Rightarrow> json \<Rightarrow> error + State list"

text \<open>
  \<^verbatim>\<open>
  func (c *TLCClient) SendTrace(trace *List[*Event]) ([]State, error) {
      trace.Append(&Event{Reset: true})
      data, err := json.Marshal(trace)
      if err != nil {
          return []State{}, fmt.Errorf("error marshalling json: %s", err)
      }
      res, err := http.Post("http://"+c.ClientAddr+"/execute", "application/json", bytes.NewBuffer(data))
      if err != nil {
          return []State{}, fmt.Errorf("error sending trace to tlc: %s", err)
      }
      // ... response processing ...
      return result, nil
  }
  \<close>
  The trace is passed by pointer and \<^verbatim>\<open>Append\<close> changes it in place, so the model
  returns the trace as the caller sees it afterwards, next to the result.
\<close>

definition reset_event :: Event where
  "reset_event = \<lparr>Name = [], Node = 0, Params = None, Reset = True\<rparr>"

definition request_url :: "TLCClient \<Rightarrow> string" where
  "request_url c = ''http://'' @ ClientAddr c @ ''/execute''"

definition SendTrace :: "http \<Rightarrow> TLCClient \<Rightarrow> Event list \<Rightarrow> Event list \<times> (error + State list)" where
  "SendTrace post c trace =
     (let trace' = Append trace reset_event in
      case marshal_list trace' of
        Inl err \<Rightarrow> (trace', Inl (ErrMarshallingJson err))
      | Inr data \<Rightarrow> (trace', post (request_url c) data))"


section \<open>The guider (guider.go)\<close>

text \<open>
  The guider keeps \<^verbatim>\<open>statesMap map[int64]bool\<close>, the keys of the abstract states
  seen so far. \<^verbatim>\<open>recordTrace\<close> is not part of the available sources.

  Modelled from the spec: section 4.4 gives the guider an optional records store
  to which, when recording is on, the trace, the event trace and the returned
  states are persisted; \<open>recordTrace\<close> appends them to \<open>records\<close>.
\<close>

record 'c TLCStateGuider =
  statesMap :: "(64 word, bool) mapping"
  tlcClient :: TLCClient
  recordTraces :: bool
  records :: "('c list \<times> Event list \<times> State list) list"

definition recordTrace ::
  "'c TLCStateGuider \<Rightarrow> 'c list \<Rightarrow> Event list \<Rightarrow> State list \<Rightarrow> 'c TLCStateGuider" where
  "recordTrace t trace eventTrace tlcStates =
     (if recordTraces t then t\<lparr>records := records t @ [(trace, eventTrace, tlcStates)]\<rparr>
      else t)"

text \<open>
  The loop over the returned states:
  \<^verbatim>\<open>
  for _, s := range tlcStates {
      _, ok := t.statesMap[s.Key]
      if !ok {
          numNewStates += 1
          t.statesMap[s.Key] = true
      }
  }
  \<close>
\<close>

fun count_new_states ::
  "State list \<Rightarrow> (64 word, bool) mapping \<Rightarrow> int \<Rightarrow> (64 word, bool) mapping \<times> int" where
  "count_new_states [] m numNewStates = (m, numNewStates)"
| "count_new_states (s # ss) m numNewStates =
     (case Mapping.lookup m (Key s) of
        None \<Rightarrow> count_new_states ss (Mapping.update (Key s) True m) (numNewStates + 1)
      | Some _ \<Rightarrow> count_new_states ss m numNewStates)"

datatype panic = Panic error

text \<open>
  \<^verbatim>\<open>
  func (t *TLCStateGuider) Check(trace *List[*SchedulingChoice], eventTrace *List[*Event]) (int, float64) {
      // ... hash calculation ...
      curStates := len(t.statesMap)
      numNewStates := 0
      if tlcStates, err := t.tlcClient.SendTrace(eventTrace); err == nil {
          t.recordTrace(trace, eventTrace, tlcStates)
          for _, s := range tlcStates { ... }
          // ... state trace hashing ...
      } else {
          panic(fmt.Sprintf("error connecting to tlc: %s", err))
      }
      return numNewStates, float64(numNewStates) / float64(max(curStates, 1))
  }
  \<close>
  The model returns the guider and the event trace as they are when the call ends
  (by return or by panic), and the outcome: the panic, or the pair of results. The
  two elided passages compute hashes of the traces and keep them in maps of their
  own; they are not part of the available sources and are left out.

  Floating-point arithmetic is not modelled. The conversion \<^verbatim>\<open>float64(n)\<close> of an
  \<^verbatim>\<open>int\<close> and the division of two \<^verbatim>\<open>float64\<close> values are parameters, over any type
  \<open>'f\<close> that stands for \<^verbatim>\<open>float64\<close>; the gain is that division applied to those
  conversions, whatever they compute.
\<close>

record 'f float64_ops =
  float64_of :: "int \<Rightarrow> 'f"
  float64_div :: "'f \<Rightarrow> 'f \<Rightarrow> 'f"

definition Check ::
  "'f float64_ops \<Rightarrow> http \<Rightarrow> 'c TLCStateGuider \<Rightarrow> 'c list \<Rightarrow> Event list
     \<Rightarrow> 'c TLCStateGuider \<times> Event list \<times> (panic + int \<times> 'f)" where
  "Check fl post t trace eventTrace =
     (let curStates = int (Mapping.size (statesMap t));
          numNewStates = 0 in
      case SendTrace post (tlcClient t) eventTrace of
        (eventTrace', Inr tlcStates) \<Rightarrow>
          (let t1 = recordTrace t trace eventTrace' tlcStates;
               (m, numNewStates) = count_new_states tlcStates (statesMap t1) numNewStates;
               t2 = t1\<lparr>statesMap := m\<rparr>
           in (t2, eventTrace',
               Inr (numNewStates,
                    float64_div fl (float64_of fl numNewStates)
                      (float64_of fl (max curStates 1)))))
      | (eventTrace', Inl err) \<Rightarrow> (t, eventTrace', Inl (Panic err)))"

text \<open>
  A campaign, as far as the guider is concerned, is a sequence of calls of \<open>Check\<close>,
  each with the scheduling trace and the event trace of its iteration and with what
  the model server answers at that moment. \<open>campaign\<close> lists the guider before the
  first call and after every call; a panic ends the campaign.
\<close>

fun campaign ::
  "'f float64_ops \<Rightarrow> 'c TLCStateGuider \<Rightarrow> (http \<times> 'c list \<times> Event list) list
     \<Rightarrow> 'c TLCStateGuider list" where
  "campaign fl t [] = [t]"
| "campaign fl t ((post, trace, eventTrace) # rest) =
     t # (case Check fl post t trace eventTrace of
            (t', _, Inr _) \<Rightarrow> campaign fl t' rest
          | (t', _, Inl _) \<Rightarrow> [t'])"

definition covers :: "'c TLCStateGuider \<Rightarrow> 'c TLCStateGuider \<Rightarrow> bool" where
  "covers a b \<longleftrightarrow> Mapping.keys (statesMap a) \<subseteq> Mapping.keys (statesMap b)
               \<and> Mapping.size (statesMap a) \<le> Mapping.size (statesMap b)"


section \<open>Event emission of the cluster harness (raft.go)\<close>

text \<open>
  Modelled from the spec: the role type of the consensus library and the fuzzing
  context are not part of the available sources. The specification names the roles
  Follower, Candidate and Leader (sections 4.1 and 6.1; the code compares with
  \<^verbatim>\<open>raft.StateLeader\<close> and \<^verbatim>\<open>raft.StateCandidate\<close>), and says that events appear in
  the event trace in the order the harness emits them (section 5), so \<open>AddEvent\<close>
  appends to the event trace.
\<close>

datatype StateType = StateFollower | StateCandidate | StateLeader

definition AddEvent :: "Event list \<Rightarrow> Event \<Rightarrow> Event list" where
  "AddEvent ctx e = Append ctx e"

text \<open>
  The four event literals of the excerpts. Node identifiers and terms are
  \<^verbatim>\<open>uint64\<close>; \<^verbatim>\<open>int(id)\<close> reinterprets the 64 bits as a signed number.
\<close>

definition ClientRequest_event :: "int \<Rightarrow> 64 word \<Rightarrow> Event" where
  "ClientRequest_event request leader =
     \<lparr>Name = ''ClientRequest'', Node = leader,
      Params = Some [(''leader'', PUint64 leader), (''request'', PInt request)],
      Reset = False\<rparr>"

definition BecomeLeader_event :: "64 word \<Rightarrow> Event" where
  "BecomeLeader_event nid =
     \<lparr>Name = ''BecomeLeader'', Node = nid, Params = Some [(''node'', PUint64 nid)],
      Reset = False\<rparr>"

definition Timeout_event :: "64 word \<Rightarrow> Event" where
  "Timeout_event nid =
     \<lparr>Name = ''Timeout'', Node = nid, Params = Some [(''node'', PUint64 nid)],
      Reset = False\<rparr>"

definition AdvanceCommitIndex_event :: "64 word \<Rightarrow> Event" where
  "AdvanceCommitIndex_event nid =
     \<lparr>Name = ''AdvanceCommitIndex'', Node = nid, Params = Some [(''i'', PInt (sint nid))],
      Reset = False\<rparr>"

text \<open>
  raft.go, lines 116 to 123: the event of a client request.
\<close>

definition emit_client_request :: "Event list \<Rightarrow> int \<Rightarrow> 64 word \<Rightarrow> Event list" where
  "emit_client_request fctx request leader = AddEvent fctx (ClientRequest_event request leader)"

text \<open>
  raft.go, lines 175 to 198: the events of a role change, from the role and term
  before (\<open>old\<close>, \<open>oldTerm\<close>) and after (\<open>new\<close>, \<open>newTerm\<close>).
  \<^verbatim>\<open>
  if old != new && new == raft.StateLeader {
      ctx.AddEvent(&Event{Name: "BecomeLeader", Node: id, Params: {"node": id}})
      ctx.AddEvent(&Event{Name: "ClientRequest", Node: id, Params: {"request": 0, "leader": id}})
  } else if (old != new && new == raft.StateCandidate) ||
            (oldTerm < newTerm && old == new && new == raft.StateCandidate) {
      ctx.AddEvent(&Event{Name: "Timeout", Node: id, Params: {"node": id}})
  }
  \<close>
\<close>

definition emit_role_events ::
  "Event list \<Rightarrow> 64 word \<Rightarrow> StateType \<Rightarrow> StateType \<Rightarrow> 64 word \<Rightarrow> 64 word \<Rightarrow> Event list" where
  "emit_role_events fctx nid old new oldTerm newTerm =
     (if old \<noteq> new \<and> new = StateLeader then
        AddEvent (AddEvent fctx (BecomeLeader_event nid)) (ClientRequest_event 0 nid)
      else if (old \<noteq> new \<and> new = StateCandidate)
            \<or> (oldTerm < newTerm \<and> old = new \<and> new = StateCandidate) then
        AddEvent fctx (Timeout_event nid)
      else fctx)"



text \<open>
  raft.go, lines 152 to 159: the event of a \<^verbatim>\<open>ready\<close> batch with committed entries.
  \<^verbatim>\<open>
  if len(ready.CommittedEntries) > 0 {
      ctx.AddEvent(&Event{Name: "AdvanceCommitIndex", Node: id, Params: {"i": int(id)}})
  }
  \<close>
\<close>

record 'e Ready =
  CommittedEntries :: "'e list"

definition emit_commit_events :: "Event list \<Rightarrow> 64 word \<Rightarrow> 'e Ready \<Rightarrow> Event list" where
  "emit_commit_events fctx nid ready =
     (if length (CommittedEntries ready) > 0 then AddEvent fctx (AdvanceCommitIndex_event nid)
      else fctx)"


section \<open>Scoring and mutation in the fuzzer's main loop (fuzzer.go)\<close>

text \<open>
  \<^verbatim>\<open>
  if numNewStates, _ := f.config.Guider.Check(trace, eventTrace); numNewStates > 0 {
      numMutations := numNewStates * f.config.MutPerTrace
      for j := 0; j < numMutations; j++ {
          new, ok := f.config.Mutator.Mutate(trace, eventTrace)
          if ok {
              f.mutatedTracesQueue.Push(copyTrace(new, defaultCopyFilter()))
          }
      }
  }
  \<close>
  The mutator, \<^verbatim>\<open>copyTrace\<close>, \<^verbatim>\<open>defaultCopyFilter\<close> and the queue are not part of the
  available sources. The mutator and the two copy helpers are parameters: a mutator
  draws random numbers, so it is a function of its own state \<open>'m\<close> that returns the
  new state next to its two results.

  Modelled from the spec: \<open>Push\<close> puts a trace at the end of the mutated-trace queue
  (section 4.6).

  The product of two Go \<^verbatim>\<open>int\<close>s wraps around at 64 bits.
\<close>

type_synonym ('c, 'm) mutator = "'m \<Rightarrow> 'c list \<Rightarrow> Event list \<Rightarrow> ('c list \<times> bool) \<times> 'm"

definition Push :: "'a list \<Rightarrow> 'a \<Rightarrow> 'a list" where
  "Push q x = q @ [x]"

definition int_mul :: "int \<Rightarrow> int \<Rightarrow> int" where
  "int_mul a b = sint (word_of_int (a * b) :: 64 word)"

function mutate_loop ::
  "('c, 'm) mutator \<Rightarrow> ('c list \<Rightarrow> 'f \<Rightarrow> 'c list) \<Rightarrow> 'f \<Rightarrow> 'c list \<Rightarrow> Event list
     \<Rightarrow> int \<Rightarrow> int \<Rightarrow> 'm \<times> 'c list list \<Rightarrow> 'm \<times> 'c list list" where
  "mutate_loop Mutate copyTrace defaultCopyFilter trace eventTrace numMutations j (ms, queue) =
     (if j < numMutations then
        (case Mutate ms trace eventTrace of
           ((new, ok), ms') \<Rightarrow>
             mutate_loop Mutate copyTrace defaultCopyFilter trace eventTrace numMutations (j + 1)
               (ms', if ok then Push queue (copyTrace new defaultCopyFilter) else queue))
      else (ms, queue))"
  by pat_completeness auto
termination
  by (relation "measure (\<lambda>(Mutate, copyTrace, defaultCopyFilter, trace, eventTrace,
                            numMutations, j, s). nat (numMutations - j))") auto

text \<open>
  The excerpt as a whole. \<open>Check\<close> appended the end-of-trace sentinel to the event
  trace it was given by pointer, so the mutator sees the event trace with the
  sentinel. A panic of \<open>Check\<close> leaves the mutator and the queue as they were.
\<close>

definition score_and_mutate ::
  "'f float64_ops \<Rightarrow> http \<Rightarrow> ('c, 'm) mutator \<Rightarrow> ('c list \<Rightarrow> 'p \<Rightarrow> 'c list) \<Rightarrow> 'p \<Rightarrow> int
     \<Rightarrow> 'c TLCStateGuider \<times> 'm \<times> 'c list list \<Rightarrow> 'c list \<Rightarrow> Event list
     \<Rightarrow> panic + 'c TLCStateGuider \<times> 'm \<times> 'c list list" where
  "score_and_mutate fl post Mutate copyTrace defaultCopyFilter MutPerTrace s trace eventTrace =
     (case s of (guider, ms, queue) \<Rightarrow>
        (case Check fl post guider trace eventTrace of
           (guider', eventTrace', Inl p) \<Rightarrow> Inl p
         | (guider', eventTrace', Inr (numNewStates, gain)) \<Rightarrow>
             if numNewStates > 0 then
               (let numMutations = int_mul numNewStates MutPerTrace;
                    (ms', queue') = mutate_loop Mutate copyTrace defaultCopyFilter trace
                                      eventTrace' numMutations 0 (ms, queue)
                in Inr (guider', ms', queue'))
             else Inr (guider', ms, queue)))"

text \<open>
  What \<open>n\<close> invocations of the mutator one after the other give: the list of their
  results in order and the state of the mutator after the last one.
\<close>

fun invocations ::
  "('c, 'm) mutator \<Rightarrow> 'c list \<Rightarrow> Event list \<Rightarrow> nat \<Rightarrow> 'm \<Rightarrow> ('c list \<times> bool) list \<times> 'm" where
  "invocations Mutate trace eventTrace 0 ms = ([], ms)"
| "invocations Mutate trace eventTrace (Suc n) ms =
     (case Mutate ms trace eventTrace of
        (r, ms') \<Rightarrow> (case invocations Mutate trace eventTrace n ms' of
                      (rs, ms'') \<Rightarrow> (r # rs, ms'')))"

definition children :: "('c list \<Rightarrow> 'f \<Rightarrow> 'c list) \<Rightarrow> 'f \<Rightarrow> ('c list \<times> bool) list \<Rightarrow> 'c list list" where
  "children copyTrace defaultCopyFilter rs =
     map (\<lambda>r. copyTrace (fst r) defaultCopyFilter) (filter snd rs)"


section \<open>The pub/sub client (pubsub/client.go)\<close>

datatype AckMode = AckModeNack | AckModeAck

text \<open>
  Of a \<^verbatim>\<open>pubsub.Message\<close> the client sets the payload and the attributes. A
  \<^verbatim>\<open>*pubsub.Message\<close> may be \<^verbatim>\<open>nil\<close>: a message pointer is a \<open>Message option\<close>.
\<close>

record Message =
  Data :: "8 word list"
  Attributes :: "(string \<times> string) list option"

text \<open>
  A context is the background context, or derived from a parent with a cancel
  function or with a timeout (a \<^verbatim>\<open>time.Duration\<close>, a signed 64-bit count of
  nanoseconds, of which the client only tests the sign).
\<close>

datatype "context" = Background | WithCancel "context" | WithTimeout "context" int

datatype ctx_error = Canceled | DeadlineExceeded

fun has_deadline :: "context \<Rightarrow> bool" where
  "has_deadline Background = False"
| "has_deadline (WithCancel parent) = has_deadline parent"
| "has_deadline (WithTimeout parent d) = True"

datatype pubsub_error =
    TimeoutPublishing string
  | FailedToPublish string
  | MessageChannelClosed
  | ReceivedNilMessage
  | ErrorChannelClosed
  | ReceiverError string
  | TimeoutWaiting
  | ContextError ctx_error

text \<open>
  The fields of \<^verbatim>\<open>PubSubClient\<close> that the modelled operations read or write. The
  handles of the cloud library, the mutexes and the two channels are left to the
  environment; \<open>receiverOnce\<close> tells whether the \<^verbatim>\<open>sync.Once\<close> has fired.
  \<^verbatim>\<open>NewPubSubClient\<close> sets \<open>ctx\<close> to \<^verbatim>\<open>context.WithCancel(context.Background())\<close>.
\<close>

record PubSubClient =
  messageBuffer :: "Message option list"
  ctx :: "context"
  ackMode :: AckMode
  receiverStarted :: bool
  receiverOnce :: bool

definition new_client_context :: "context" where
  "new_client_context = WithCancel Background"

text \<open>
  The cloud service is the environment of \<open>PublishMessage\<close>: \<open>Get w ctx msg\<close> is what
  \<^verbatim>\<open>c.topic.Publish(ctx, msg)\<close> followed by \<^verbatim>\<open>result.Get(ctx)\<close> returns, the
  server's message id or an error, and \<open>Err w ctx\<close> is what \<^verbatim>\<open>ctx.Err()\<close> returns
  when the client asks after a failure.
  \<^verbatim>\<open>
  ctx := c.ctx
  if timeout > 0 {
      var cancel context.CancelFunc
      ctx, cancel = context.WithTimeout(c.ctx, timeout)
      defer cancel()
  }
  result := c.topic.Publish(ctx, msg)
  id, err := result.Get(ctx)
  if err != nil {
      if ctx.Err() == context.DeadlineExceeded {
          return "", fmt.Errorf("timeout publishing message: %v", err)
      }
      return "", fmt.Errorf("failed to publish message: %v", err)
  }
  return id, nil
  \<close>
\<close>

record publisher =
  Get :: "context \<Rightarrow> Message \<Rightarrow> string + string"
  Err :: "context \<Rightarrow> ctx_error option"

definition publish_context :: "PubSubClient \<Rightarrow> int \<Rightarrow> context" where
  "publish_context c timeout = (if timeout > 0 then WithTimeout (ctx c) timeout else ctx c)"

definition PublishMessage ::
  "publisher \<Rightarrow> PubSubClient \<Rightarrow> 8 word list \<Rightarrow> (string \<times> string) list option \<Rightarrow> int
     \<Rightarrow> string \<times> pubsub_error option" where
  "PublishMessage w c data attributes timeout =
     (let msg = \<lparr>Data = data, Attributes = attributes\<rparr>;
          ctx' = publish_context c timeout
      in case Get w ctx' msg of
           Inl err \<Rightarrow>
             if Err w ctx' = Some DeadlineExceeded then ([], Some (TimeoutPublishing err))
             else ([], Some (FailedToPublish err))
         | Inr msgid \<Rightarrow> (msgid, None))"

text \<open>
  \<^verbatim>\<open>startContinuousReceiver\<close> runs its body once per client: it sets
  \<^verbatim>\<open>receiverStarted\<close> and starts the goroutine that feeds the two channels. What
  the goroutine does afterwards belongs to the environment.
\<close>

definition startContinuousReceiver :: "PubSubClient \<Rightarrow> PubSubClient" where
  "startContinuousReceiver c =
     (if receiverOnce c then c else c\<lparr>receiverStarted := True, receiverOnce := True\<rparr>)"

text \<open>
  What the \<^verbatim>\<open>select\<close> of \<open>ReceiveMessage\<close> yields is decided by the environment: a
  message pointer or the closing of the message channel, an error or the closing of
  the error channel, or the end of the context.
\<close>

datatype select_outcome =
    MessageReceived "Message option"
  | MessageChanClosed
  | ErrorReceived string
  | ErrorChanClosed
  | ContextDone ctx_error

datatype ack_call = Ack Message | Nack Message

text \<open>
  \<open>ReceiveMessage\<close> returns the pair of results of the Go function, the client
  afterwards, and the calls of \<^verbatim>\<open>Ack\<close> and \<^verbatim>\<open>Nack\<close> it made.
  \<^verbatim>\<open>
  c.bufferMutex.Lock()
  if len(c.messageBuffer) > 0 {
      msg := c.messageBuffer[0]
      c.messageBuffer = c.messageBuffer[1:]
      c.bufferMutex.Unlock()
      return msg, nil
  }
  c.bufferMutex.Unlock()
  c.startContinuousReceiver()
  ctx, cancel := context.WithTimeout(c.ctx, timeout)
  defer cancel()
  select { ... }
  \<close>
\<close>

definition ReceiveMessage ::
  "PubSubClient \<Rightarrow> int \<Rightarrow> select_outcome
     \<Rightarrow> (Message option \<times> pubsub_error option) \<times> PubSubClient \<times> ack_call list" where
  "ReceiveMessage c timeout outcome =
     (case messageBuffer c of
        msg # rest \<Rightarrow> ((msg, None), c\<lparr>messageBuffer := rest\<rparr>, [])
      | [] \<Rightarrow>
          (let c' = startContinuousReceiver c in
           case outcome of
             MessageChanClosed \<Rightarrow> ((None, Some MessageChannelClosed), c', [])
           | MessageReceived (Some msg) \<Rightarrow>
               ((Some msg, None), c', [if ackMode c' = AckModeAck then Ack msg else Nack msg])
           | MessageReceived None \<Rightarrow> ((None, Some ReceivedNilMessage), c', [])
           | ErrorChanClosed \<Rightarrow> ((None, Some ErrorChannelClosed), c', [])
           | ErrorReceived err \<Rightarrow> ((None, Some (ReceiverError err)), c', [])
           | ContextDone e \<Rightarrow>
               if e = DeadlineExceeded then ((None, Some TimeoutWaiting), c', [])
               else ((None, Some (ContextError e)), c', [])))"

text \<open>
  \<^verbatim>\<open>
  func (c *PubSubClient) BufferMessage(msg *pubsub.Message) {
      c.bufferMutex.Lock()
      defer c.bufferMutex.Unlock()
      c.messageBuffer = append(c.messageBuffer, msg)
  }
  \<close>
\<close>

definition BufferMessage :: "PubSubClient \<Rightarrow> Message option \<Rightarrow> PubSubClient" where
  "BufferMessage c msg = c\<lparr>messageBuffer := messageBuffer c @ [msg]\<rparr>"

text \<open>
  Calls of \<open>ReceiveMessage\<close> one after the other, each with its timeout and with what
  its \<^verbatim>\<open>select\<close> would yield: the results in order, the client after the last call
  and all acknowledgement calls made.
\<close>

fun receive_all ::
  "PubSubClient \<Rightarrow> (int \<times> select_outcome) list
     \<Rightarrow> (Message option \<times> pubsub_error option) list \<times> PubSubClient \<times> ack_call list" where
  "receive_all c [] = ([], c, [])"
| "receive_all c ((timeout, outcome) # calls) =
     (case ReceiveMessage c timeout outcome of
        (r, c', acks) \<Rightarrow> (case receive_all c' calls of
                           (rs, c'', acks') \<Rightarrow> (r # rs, c'', acks @ acks')))"


section \<open>Example inputs\<close>

definition g0 :: "nat TLCStateGuider" where
  "g0 = \<lparr>statesMap = Mapping.update 2 True (Mapping.update 3 True Mapping.empty),
         tlcClient = \<lparr>ClientAddr = ''127.0.0.1:2023''\<rparr>,
         recordTraces = False, records = []\<rparr>"

definition post0 :: http where
  "post0 = (\<lambda>url body. Inr [\<lparr>Repr = ''s1'', Key = 1\<rparr>, \<lparr>Repr = ''s2'', Key = 2\<rparr>,
                            \<lparr>Repr = ''s1'', Key = 1\<rparr>])"

text \<open>
  The values of \<^verbatim>\<open>float64\<close> written as the expressions that compute them.
\<close>

datatype float64_expr = OfInt int | Quotient float64_expr float64_expr

definition fl0 :: "float64_expr float64_ops" where
  "fl0 = \<lparr>float64_of = OfInt, float64_div = Quotient\<rparr>"

definition post_two :: http where
  "post_two = (\<lambda>url body. Inr [\<lparr>Repr = ''s1'', Key = 1\<rparr>, \<lparr>Repr = ''s4'', Key = 4\<rparr>])"

definition post_down :: http where
  "post_down = (\<lambda>url body. Inl (ErrSendingTrace ''connection refused''))"

definition ev_timeout :: Event where
  "ev_timeout = Timeout_event 1"

text \<open>A mutator whose state counts its invocations; every second one fails.\<close>

definition mut0 :: "(nat, nat) mutator" where
  "mut0 = (\<lambda>k trace eventTrace. ((k # trace, even k), Suc k))"

definition post_seen :: http where
  "post_seen = (\<lambda>url body. Inr [\<lparr>Repr = ''s2'', Key = 2\<rparr>])"

definition client0 :: PubSubClient where
  "client0 = \<lparr>messageBuffer = [], ctx = new_client_context, ackMode = AckModeAck,
              receiverStarted = False, receiverOnce = False\<rparr>"

definition msg_a :: Message where
  "msg_a = \<lparr>Data = [97], Attributes = Some [(''key'', ''value'')]\<rparr>"

definition msg_b :: Message where
  "msg_b = \<lparr>Data = [98], Attributes = None\<rparr>"

text \<open>
  A service that answers in time only when it is given no deadline, and one that
  refuses every message.
\<close>

definition slow_service :: publisher where
  "slow_service =
     \<lparr>Get = (\<lambda>c msg. if has_deadline c then Inl ''context deadline exceeded'' else Inr ''id-1''),
      Err = (\<lambda>c. if has_deadline c then Some DeadlineExceeded else None)\<rparr>"

definition refusing_service :: publisher where
  "refusing_service = \<lparr>Get = (\<lambda>c msg. Inl ''permission denied''), Err = (\<lambda>c. None)\<rparr>"



section \<open>The guider counts new abstract states\<close>

lemma count_new_states_keys:
  "Mapping.keys (fst (count_new_states ss m n)) = Mapping.keys m \<union> Key ` set ss"
proof (induction ss arbitrary: m n)
  case Nil
  then show ?case by simp
next
  case (Cons s ss)
  show ?case
  proof (cases "Mapping.lookup m (Key s)")
    case None
    then show ?thesis using Cons.IH by simp
  next
    case (Some b)
    then have "Key s \<in> Mapping.keys m" by (simp add: keys_is_none_rep)
    with Some show ?thesis using Cons.IH by auto
  qed
qed

lemma count_new_states_count:
  "snd (count_new_states ss m n) = n + int (card (Key ` set ss - Mapping.keys m))"
proof (induction ss arbitrary: m n)
  case Nil
  then show ?case by simp
next
  case (Cons s ss)
  show ?case
  proof (cases "Mapping.lookup m (Key s)")
    case None
    then have notin: "Key s \<notin> Mapping.keys m"
      by (simp add: keys_is_none_rep Option.is_none_def)
    have eq: "Key ` set (s # ss) - Mapping.keys m
            = insert (Key s) (Key ` set ss - insert (Key s) (Mapping.keys m))"
      using notin by auto
    have "card (Key ` set (s # ss) - Mapping.keys m)
            = Suc (card (Key ` set ss - insert (Key s) (Mapping.keys m)))"
      unfolding eq by (rule card_insert_disjoint) auto
    with None show ?thesis using Cons.IH by simp
  next
    case (Some b)
    then have "Key s \<in> Mapping.keys m" by (simp add: keys_is_none_rep)
    then have "Key ` set (s # ss) - Mapping.keys m = Key ` set ss - Mapping.keys m"
      by auto
    with Some show ?thesis using Cons.IH by simp
  qed
qed

lemma size_word_mapping:
  "Mapping.size (m :: (64 word, bool) mapping) = card (Mapping.keys m)"
  by (simp add: Mapping.size_def)

lemma Check_success:
  assumes "SendTrace post (tlcClient t) eventTrace = (eventTrace', Inr tlcStates)"
  shows "Check fl post t trace eventTrace =
           ((recordTrace t trace eventTrace' tlcStates)
              \<lparr>statesMap := fst (count_new_states tlcStates (statesMap t) 0)\<rparr>,
            eventTrace',
            Inr (snd (count_new_states tlcStates (statesMap t) 0),
                 float64_div fl
                   (float64_of fl (snd (count_new_states tlcStates (statesMap t) 0)))
                   (float64_of fl (max (int (Mapping.size (statesMap t))) 1))))"
proof -
  have "statesMap (recordTrace t trace eventTrace' tlcStates) = statesMap t"
    by (simp add: recordTrace_def)
  with assms show ?thesis
    by (simp add: Check_def Let_def split_beta)
qed

text \<open>
  Claim C1. When the call of the model server succeeds with the states \<open>tlcStates\<close>,
  \<open>Check\<close> returns normally; the count it returns is the number of keys among the
  returned states that were not in the guider's state set before the call (a key
  that the server returns several times counts once, because it is in the set from
  its first occurrence on); afterwards the state set is the old one together with
  all returned keys; and the gain is the \<^verbatim>\<open>float64\<close> quotient of that count and
  the greater of the size of the state set before the call and one, each converted
  to \<^verbatim>\<open>float64\<close>.
\<close>

theorem Check_new_states_and_gain:
  assumes "SendTrace post (tlcClient t) eventTrace = (eventTrace', Inr tlcStates)"
  shows "\<exists>t' new gain.
           Check fl post t trace eventTrace = (t', eventTrace', Inr (new, gain))
         \<and> new = int (card (Key ` set tlcStates - Mapping.keys (statesMap t)))
         \<and> Mapping.keys (statesMap t') = Mapping.keys (statesMap t) \<union> Key ` set tlcStates
         \<and> gain = float64_div fl (float64_of fl new)
                    (float64_of fl (max (int (card (Mapping.keys (statesMap t)))) 1))"
proof -
  have n: "snd (count_new_states tlcStates (statesMap t) 0)
             = int (card (Key ` set tlcStates - Mapping.keys (statesMap t)))"
    using count_new_states_count [of tlcStates "statesMap t" 0] by simp
  have m: "Mapping.keys (fst (count_new_states tlcStates (statesMap t) 0))
             = Mapping.keys (statesMap t) \<union> Key ` set tlcStates"
    by (rule count_new_states_keys)
  from Check_success [OF assms, of fl trace] n m show ?thesis
    by (simp add: size_word_mapping)
qed

theorem Check_new_states_and_gain_witness:
  "SendTrace post0 (tlcClient g0) [] =
     ([reset_event], Inr [\<lparr>Repr = ''s1'', Key = 1\<rparr>, \<lparr>Repr = ''s2'', Key = 2\<rparr>,
                          \<lparr>Repr = ''s1'', Key = 1\<rparr>])
   \<and> (\<exists>t'. Check fl0 post0 g0 [] [] = (t', [reset_event], Inr (1, Quotient (OfInt 1) (OfInt 2)))
          \<and> Mapping.keys (statesMap t') = {1, 2, 3})"
proof -
  have s: "SendTrace post0 (tlcClient g0) [] =
     ([reset_event], Inr [\<lparr>Repr = ''s1'', Key = 1\<rparr>, \<lparr>Repr = ''s2'', Key = 2\<rparr>,
                          \<lparr>Repr = ''s1'', Key = 1\<rparr>])"
    by (simp add: SendTrace_def Append_def marshal_list_def marshal_event_def
        reset_event_def post0_def)
  have k: "Mapping.keys (statesMap g0) = {2, 3}" by (simp add: g0_def)
  from Check_new_states_and_gain [OF s, of fl0 "[]"] k s show ?thesis
    by (auto simp: insert_commute fl0_def)
qed


section \<open>The state set only grows\<close>

lemma Check_statesMap_keys:
  "Mapping.keys (statesMap t) \<subseteq> Mapping.keys (statesMap (fst (Check fl post t trace eventTrace)))"
proof (cases "SendTrace post (tlcClient t) eventTrace")
  case (Pair ev r)
  show ?thesis
  proof (cases r)
    case (Inl err)
    with Pair show ?thesis by (simp add: Check_def Let_def)
  next
    case (Inr tlcStates)
    with Pair Check_success [of post t eventTrace ev tlcStates fl trace]
    show ?thesis by (simp add: count_new_states_keys)
  qed
qed

lemma size_mono_word:
  "Mapping.keys (m :: (64 word, bool) mapping) \<subseteq> Mapping.keys m'
     \<Longrightarrow> Mapping.size m \<le> Mapping.size m'"
  by (rule Mapping.size_mono) simp_all

lemma covers_refl: "covers a a"
  by (simp add: covers_def)

lemma covers_trans: "covers a b \<Longrightarrow> covers b c \<Longrightarrow> covers a c"
  by (auto simp: covers_def)

lemma covers_Check: "covers t (fst (Check fl post t trace eventTrace))"
  using Check_statesMap_keys [of t fl post trace eventTrace]
  by (simp add: covers_def size_mono_word)

lemma campaign_all_cover: "\<forall>g \<in> set (campaign fl t its). covers t g"
proof (induction its arbitrary: t)
  case Nil
  then show ?case by (simp add: covers_refl)
next
  case (Cons it its)
  obtain post trace ev where it: "it = (post, trace, ev)" by (cases it)
  obtain t' ev' r where c: "Check fl post t trace ev = (t', ev', r)"
    by (cases "Check fl post t trace ev")
  have tt': "covers t t'" using covers_Check [of t fl post trace ev] c by simp
  show ?case
  proof (cases r)
    case (Inl p)
    with it c tt' show ?thesis by (simp add: covers_refl)
  next
    case (Inr v)
    have "\<forall>g \<in> set (campaign fl t' its). covers t g"
      using Cons.IH [of t'] tt' covers_trans by blast
    with it c Inr show ?thesis by (simp add: covers_refl)
  qed
qed

lemma campaign_sorted: "sorted_wrt covers (campaign fl t its)"
proof (induction its arbitrary: t)
  case Nil
  then show ?case by simp
next
  case (Cons it its)
  obtain post trace ev where it: "it = (post, trace, ev)" by (cases it)
  obtain t' ev' r where c: "Check fl post t trace ev = (t', ev', r)"
    by (cases "Check fl post t trace ev")
  have tt': "covers t t'" using covers_Check [of t fl post trace ev] c by simp
  show ?case
  proof (cases r)
    case (Inl p)
    with it c tt' show ?thesis by simp
  next
    case (Inr v)
    have "\<forall>g \<in> set (campaign fl t' its). covers t g"
      using campaign_all_cover [of fl t' its] tt' covers_trans by blast
    with it c Inr Cons.IH [of t'] show ?thesis by simp
  qed
qed

text \<open>
  Claim C2. Along a campaign the guider's state set only grows: of any two moments
  of a campaign, the set of keys at the earlier one is contained in the set of keys
  at the later one, and the size of the state set at the earlier one is at most the
  size at the later one. \<open>Check\<close> is the only operation on the guider in the
  available sources.
\<close>

theorem campaign_states_monotone:
  assumes "i \<le> j" and "j < length (campaign fl t its)"
  shows "Mapping.keys (statesMap (campaign fl t its ! i))
           \<subseteq> Mapping.keys (statesMap (campaign fl t its ! j))
       \<and> Mapping.size (statesMap (campaign fl t its ! i))
           \<le> Mapping.size (statesMap (campaign fl t its ! j))"
proof (cases "i = j")
  case True
  then show ?thesis by simp
next
  case False
  with assms have "i < j" by simp
  with assms(2) campaign_sorted [of fl t its]
  have "covers (campaign fl t its ! i) (campaign fl t its ! j)"
    by (simp add: sorted_wrt_iff_nth_less)
  then show ?thesis by (simp add: covers_def)
qed

theorem campaign_states_monotone_witness:
  "(0::nat) \<le> 1 \<and> 1 < length (campaign fl0 g0 [(post0, [], []), (post_down, [], [])])
   \<and> Mapping.keys (statesMap (campaign fl0 g0 [(post0, [], []), (post_down, [], [])] ! 0)) = {2, 3}
   \<and> Mapping.keys (statesMap (campaign fl0 g0 [(post0, [], []), (post_down, [], [])] ! 1)) = {1, 2, 3}
   \<and> Mapping.size (statesMap (campaign fl0 g0 [(post0, [], []), (post_down, [], [])] ! 0))
       \<le> Mapping.size (statesMap (campaign fl0 g0 [(post0, [], []), (post_down, [], [])] ! 1))"
proof -
  have c: "Check fl0 post0 g0 [] [] =
      (g0\<lparr>statesMap := Mapping.update 1 True (statesMap g0)\<rparr>, [reset_event], Inr (1, Quotient (OfInt 1) (OfInt 2)))"
    by (simp add: Check_def SendTrace_def Append_def marshal_list_def marshal_event_def
        reset_event_def post0_def g0_def recordTrace_def Let_def Mapping.size_def lookup_update'
        fl0_def)
  have l: "1 < length (campaign fl0 g0 [(post0, [], []), (post_down, [], [])])"
    by (simp add: c)
  have k0: "Mapping.keys (statesMap (campaign fl0 g0 [(post0, [], []), (post_down, [], [])] ! 0))
              = {2, 3}"
    by (simp add: g0_def)
  have k1: "Mapping.keys (statesMap (campaign fl0 g0 [(post0, [], []), (post_down, [], [])] ! 1))
              = {1, 2, 3}"
    by (simp add: c) (simp add: g0_def)
  from campaign_states_monotone [of 0 1 fl0 g0 "[(post0, [], []), (post_down, [], [])]"] l k0 k1
  show ?thesis by simp
qed


section \<open>A failing exchange with the model server is fatal\<close>

text \<open>
  Claim C3. When the exchange with the model server fails (the server cannot be
  reached, or its reply cannot be read or decoded), \<open>Check\<close> panics with that error:
  it does not return a pair of results, in particular not the pair of a zero count
  and a zero gain, and the state set is what it was before the call.
\<close>

theorem Check_panics_on_transport_error:
  assumes "marshal_list (Append eventTrace reset_event) = Inr data"
      and "post (request_url (tlcClient t)) data = Inl err"
  shows "Check fl post t trace eventTrace = (t, Append eventTrace reset_event, Inl (Panic err))
       \<and> (\<forall>r. snd (snd (Check fl post t trace eventTrace)) \<noteq> Inr r)
       \<and> statesMap (fst (Check fl post t trace eventTrace)) = statesMap t"
  using assms by (simp add: Check_def SendTrace_def Let_def)

theorem Check_panics_on_transport_error_witness:
  "marshal_list (Append [] reset_event) =
     Inr (JArr [JObj [(''Name'', JStr []), (''Params'', JNull), (''Reset'', JBool True)]])
   \<and> post_down (request_url (tlcClient g0))
        (JArr [JObj [(''Name'', JStr []), (''Params'', JNull), (''Reset'', JBool True)]])
       = Inl (ErrSendingTrace ''connection refused'')
   \<and> Check fl0 post_down g0 [] [] =
       (g0, [reset_event], Inl (Panic (ErrSendingTrace ''connection refused'')))"
proof -
  have m: "marshal_list (Append [] reset_event) =
      Inr (JArr [JObj [(''Name'', JStr []), (''Params'', JNull), (''Reset'', JBool True)]])"
    by (simp add: marshal_list_def Append_def marshal_event_def reset_event_def)
  have p: "post_down (request_url (tlcClient g0))
        (JArr [JObj [(''Name'', JStr []), (''Params'', JNull), (''Reset'', JBool True)]])
       = Inl (ErrSendingTrace ''connection refused'')"
    by (simp add: post_down_def)
  from Check_panics_on_transport_error [where post = post_down and t = g0 and fl = fl0
      and eventTrace = "[]" and trace = "[]" and err = "ErrSendingTrace ''connection refused''",
      OF m p] m p
  show ?thesis by (simp add: Append_def)
qed


section \<open>The request body\<close>

lemma marshal_event_members:
  assumes "marshal_event e = Inr j"
  shows "member j ''Node'' = None" and "member j ''Reset'' = Some (JBool (Reset e))"
    and "member j ''Name'' = Some (JStr (Name e))"
  using assms by (auto simp: marshal_event_def split: option.splits sum.splits)

lemma marshal_events_list_all2:
  "marshal_events es = Inr js \<Longrightarrow> list_all2 (\<lambda>e j. marshal_event e = Inr j) es js"
  by (induction es arbitrary: js) (auto split: sum.splits)

text \<open>
  Claim C4. When the event trace with the sentinel appended can be marshalled, the
  body that \<open>SendTrace\<close> posts to the model server is a JSON array with one object
  for each event of the trace, in order, followed by the object of the sentinel; the
  last object has the member \<^verbatim>\<open>Reset\<close> equal to \<^verbatim>\<open>true\<close>, and no object has a member
  \<^verbatim>\<open>Node\<close>.
\<close>

theorem SendTrace_request_body:
  assumes "marshal_list (Append trace reset_event) = Inr body"
  shows "SendTrace post c trace = (Append trace reset_event, post (request_url c) body)
       \<and> (\<exists>objs. body = JArr objs
            \<and> list_all2 (\<lambda>e j. marshal_event e = Inr j) (trace @ [reset_event]) objs
            \<and> member (last objs) ''Reset'' = Some (JBool True)
            \<and> (\<forall>j \<in> set objs. member j ''Node'' = None))"
proof -
  from assms obtain objs where body: "body = JArr objs"
    and objs: "marshal_events (trace @ [reset_event]) = Inr objs"
    by (auto simp: marshal_list_def Append_def split: sum.splits)
  have la: "list_all2 (\<lambda>e j. marshal_event e = Inr j) (trace @ [reset_event]) objs"
    using objs by (rule marshal_events_list_all2)
  then have len: "length objs = length trace + 1"
    by (auto dest: list_all2_lengthD)
  then have ne: "objs \<noteq> []" by auto
  have "marshal_event ((trace @ [reset_event]) ! length trace) = Inr (objs ! length trace)"
    using la by (rule list_all2_nthD) simp
  then have "marshal_event reset_event = Inr (last objs)"
    using ne len by (simp add: last_conv_nth)
  then have lastr: "member (last objs) ''Reset'' = Some (JBool True)"
    using marshal_event_members(2) [of reset_event "last objs"] by (simp add: reset_event_def)
  have nodes: "\<forall>j \<in> set objs. member j ''Node'' = None"
  proof
    fix j assume "j \<in> set objs"
    then obtain i where "i < length objs" "objs ! i = j" by (auto simp: in_set_conv_nth)
    with la have "marshal_event ((trace @ [reset_event]) ! i) = Inr j"
      by (auto simp: list_all2_conv_all_nth)
    then show "member j ''Node'' = None" by (rule marshal_event_members(1))
  qed
  have "SendTrace post c trace = (Append trace reset_event, post (request_url c) body)"
    using assms by (simp add: SendTrace_def Let_def)
  with body la lastr nodes show ?thesis by blast
qed

theorem SendTrace_request_body_witness:
  "marshal_list (Append [ev_timeout] reset_event) =
     Inr (JArr [JObj [(''Name'', JStr ''Timeout''), (''Params'', JObj [(''node'', JNum 1)]),
                      (''Reset'', JBool False)],
                JObj [(''Name'', JStr []), (''Params'', JNull), (''Reset'', JBool True)]])
   \<and> SendTrace post0 \<lparr>ClientAddr = ''127.0.0.1:2023''\<rparr> [ev_timeout] =
       ([ev_timeout, reset_event],
        post0 ''http://127.0.0.1:2023/execute''
         (JArr [JObj [(''Name'', JStr ''Timeout''), (''Params'', JObj [(''node'', JNum 1)]),
                      (''Reset'', JBool False)],
                JObj [(''Name'', JStr []), (''Params'', JNull), (''Reset'', JBool True)]]))"
proof -
  have m: "marshal_list (Append [ev_timeout] reset_event) =
     Inr (JArr [JObj [(''Name'', JStr ''Timeout''), (''Params'', JObj [(''node'', JNum 1)]),
                      (''Reset'', JBool False)],
                JObj [(''Name'', JStr []), (''Params'', JNull), (''Reset'', JBool True)]])"
    by (simp add: marshal_list_def Append_def marshal_event_def reset_event_def
        ev_timeout_def Timeout_event_def)
  from SendTrace_request_body [OF m, of post0 "\<lparr>ClientAddr = ''127.0.0.1:2023''\<rparr>"] m
  show ?thesis by (simp add: Append_def request_url_def)
qed


section \<open>Events emitted on a role change and on a commit\<close>


text \<open>
  Claim C5. When the role of a node has changed and the new role is Leader, the
  role-change code adds exactly two events to the event trace, in this order: a
  \<^verbatim>\<open>BecomeLeader\<close> for the node, then a \<^verbatim>\<open>ClientRequest\<close> with request 0 and
  the node as leader.
\<close>

theorem BecomeLeader_then_ClientRequest:
  assumes "old \<noteq> new" and "new = StateLeader"
  shows "emit_role_events fctx nid old new oldTerm newTerm =
           fctx @ [\<lparr>Name = ''BecomeLeader'', Node = nid,
                     Params = Some [(''node'', PUint64 nid)], Reset = False\<rparr>,
                   \<lparr>Name = ''ClientRequest'', Node = nid,
                     Params = Some [(''leader'', PUint64 nid), (''request'', PInt 0)],
                     Reset = False\<rparr>]"
  using assms
  by (simp add: emit_role_events_def AddEvent_def Append_def BecomeLeader_event_def
      ClientRequest_event_def)

theorem BecomeLeader_then_ClientRequest_witness:
  "StateCandidate \<noteq> StateLeader \<and>
   emit_role_events [Timeout_event 2] 2 StateCandidate StateLeader 3 3 =
     [Timeout_event 2, BecomeLeader_event 2, ClientRequest_event 0 2]"
  using BecomeLeader_then_ClientRequest [of StateCandidate StateLeader "[Timeout_event 2]" 2 3 3]
  by (simp add: BecomeLeader_event_def ClientRequest_event_def)




text \<open>
  Claim C7. For a \<^verbatim>\<open>ready\<close> batch of a node the commit code adds one
  \<^verbatim>\<open>AdvanceCommitIndex\<close> event for the node when the batch has at least one
  committed entry, however many there are, and no event when it has none.
\<close>

theorem AdvanceCommitIndex_once_per_ready:
  "emit_commit_events fctx nid ready =
     fctx @ (if CommittedEntries ready = [] then []
             else [\<lparr>Name = ''AdvanceCommitIndex'', Node = nid,
                     Params = Some [(''i'', PInt (sint nid))], Reset = False\<rparr>])
   \<and> length (filter (\<lambda>e. Name e = ''AdvanceCommitIndex'') (emit_commit_events [] nid ready))
     = (if CommittedEntries ready = [] then 0 else 1)"
  by (simp add: emit_commit_events_def AddEvent_def Append_def AdvanceCommitIndex_event_def)

theorem AdvanceCommitIndex_once_per_ready_witness:
  "emit_commit_events [] 3 \<lparr>CommittedEntries = [''a'', ''b'', ''c'']\<rparr> = [AdvanceCommitIndex_event 3]
   \<and> emit_commit_events [] 3 \<lparr>CommittedEntries = ([] :: string list)\<rparr> = []"
  using AdvanceCommitIndex_once_per_ready [of "[]" 3 "\<lparr>CommittedEntries = [''a'', ''b'', ''c'']\<rparr>"]
    AdvanceCommitIndex_once_per_ready [of "[]" 3 "\<lparr>CommittedEntries = ([] :: string list)\<rparr>"]
  by (simp add: AdvanceCommitIndex_event_def)


section \<open>Mutation of a trace that found new states\<close>

lemma invocations_length: "length (fst (invocations Mutate trace eventTrace n ms)) = n"
proof (induction n arbitrary: ms)
  case 0
  then show ?case by simp
next
  case (Suc n)
  obtain r ms' where m: "Mutate ms trace eventTrace = (r, ms')"
    by (cases "Mutate ms trace eventTrace")
  with Suc [of ms'] show ?case by (auto split: prod.splits)
qed

lemma children_Cons:
  "children copyTrace f ((new, ok) # rs) =
     (if ok then copyTrace new f # children copyTrace f rs else children copyTrace f rs)"
  by (simp add: children_def)

lemma mutate_loop_invocations:
  "mutate_loop Mutate copyTrace f trace eventTrace numMutations j (ms, queue) =
     (snd (invocations Mutate trace eventTrace (nat (numMutations - j)) ms),
      queue @ children copyTrace f (fst (invocations Mutate trace eventTrace (nat (numMutations - j)) ms)))"
proof (induction Mutate copyTrace f trace eventTrace numMutations j "(ms, queue)"
    arbitrary: ms queue rule: mutate_loop.induct)
  case (1 Mutate copyTrace f trace eventTrace numMutations j ms queue)
  show ?case
  proof (cases "j < numMutations")
    case False
    then have "nat (numMutations - j) = 0" by simp
    with False show ?thesis by (simp add: children_def)
  next
    case True
    obtain new ok ms' where m: "Mutate ms trace eventTrace = ((new, ok), ms')"
      by (metis prod.exhaust)
    have n: "nat (numMutations - j) = Suc (nat (numMutations - (j + 1)))"
      using True by simp
    have step: "mutate_loop Mutate copyTrace f trace eventTrace numMutations j (ms, queue) =
          mutate_loop Mutate copyTrace f trace eventTrace numMutations (j + 1)
            (ms', if ok then Push queue (copyTrace new f) else queue)"
      using True m by simp
    have ih: "mutate_loop Mutate copyTrace f trace eventTrace numMutations (j + 1)
            (ms', if ok then Push queue (copyTrace new f) else queue) =
          (snd (invocations Mutate trace eventTrace (nat (numMutations - (j + 1))) ms'),
           (if ok then Push queue (copyTrace new f) else queue)
             @ children copyTrace f
                 (fst (invocations Mutate trace eventTrace (nat (numMutations - (j + 1))) ms')))"
      using "1" [OF True m [symmetric] refl] by simp
    show ?thesis
      unfolding step ih n using m
      by (simp add: children_Cons Push_def split: prod.splits)
  qed
qed

lemma int_mul_in_range:
  assumes "0 \<le> a * b" and "a * b < 2 ^ 63"
  shows "int_mul a b = a * b"
proof -
  have "signed_take_bit (LENGTH(64) - 1) (a * b) = a * b"
    using assms by (intro signed_take_bit_int_eq_self) simp_all
  then have "sint (word_of_int (a * b) :: 64 word) = a * b"
    by (simp only: sint_sbintrunc')
  then show ?thesis by (simp add: int_mul_def)
qed

text \<open>
  Claim C8, as stated, fails. The number of mutations is the product of the count
  and \<^verbatim>\<open>MutPerTrace\<close> in Go's \<^verbatim>\<open>int\<close>, which wraps around: with two new states
  and \<^verbatim>\<open>MutPerTrace\<close> equal to \<open>2 ^ 62\<close> the product \<open>2 ^ 63\<close> becomes
  negative, the loop body never runs, the mutator is not invoked (the state of
  \<open>mut0\<close> counts its invocations; it stays 0) and nothing is put on the queue,
  although a first invocation would return ok.
\<close>

theorem mutations_product_wraps:
  "Check fl0 post_two g0 [7] [] =
     (g0\<lparr>statesMap := Mapping.update 4 True (Mapping.update 1 True (statesMap g0))\<rparr>,
      [reset_event], Inr (2, Quotient (OfInt 2) (OfInt 2)))
   \<and> (2 :: int) * 2 ^ 62 = 2 ^ 63
   \<and> int_mul 2 (2 ^ 62) = - (2 ^ 63)
   \<and> mut0 0 [7] [reset_event] = (([0, 7], True), 1)
   \<and> score_and_mutate fl0 post_two mut0 (\<lambda>t f. filter f t) (\<lambda>c. True) (2 ^ 62) (g0, 0, []) [7] []
       = Inr (g0\<lparr>statesMap := Mapping.update 4 True (Mapping.update 1 True (statesMap g0))\<rparr>,
              0, [])"
proof -
  have c: "Check fl0 post_two g0 [7] [] =
     (g0\<lparr>statesMap := Mapping.update 4 True (Mapping.update 1 True (statesMap g0))\<rparr>,
      [reset_event], Inr (2, Quotient (OfInt 2) (OfInt 2)))"
    by (simp add: Check_def SendTrace_def Append_def marshal_list_def marshal_event_def
        reset_event_def post_two_def g0_def recordTrace_def Let_def Mapping.size_def lookup_update'
        fl0_def)
  have w: "int_mul 2 (2 ^ 62) = - (2 ^ 63)"
    by (simp add: int_mul_def)
  have m: "mut0 0 [7] [reset_event] = (([0, 7], True), 1)"
    by (simp add: mut0_def)
  have w': "int_mul 2 4611686018427387904 = - 9223372036854775808"
    by (simp add: int_mul_def)
  have l: "mutate_loop mut0 (\<lambda>t f. filter f t) (\<lambda>c. True) [7] [reset_event]
             (- 9223372036854775808) 0 (0, []) = (0, [])"
    by (simp add: mutate_loop_invocations children_def del: mutate_loop.simps)
  have "score_and_mutate fl0 post_two mut0 (\<lambda>t f. filter f t) (\<lambda>c. True) (2 ^ 62) (g0, 0, []) [7] []
       = Inr (g0\<lparr>statesMap := Mapping.update 4 True (Mapping.update 1 True (statesMap g0))\<rparr>,
              0, [])"
    by (simp add: score_and_mutate_def c w' l Let_def del: mutate_loop.simps)
  with c w m show ?thesis by simp
qed

text \<open>
  Claim C8, amended. When \<open>Check\<close> returns a count \<open>new\<close> greater than zero, the
  driver invokes the mutator on the trace and the event trace as many times as the
  product of \<open>new\<close> and the configured \<^verbatim>\<open>MutPerTrace\<close> in Go's \<^verbatim>\<open>int\<close> says (not
  at all when that product is zero or negative), one invocation after the other, and
  puts at the end of the queue, in order, the copy under the default copy filter of
  the child of every invocation that returned ok. The product in Go's \<^verbatim>\<open>int\<close> is
  the product of the two numbers whenever \<^verbatim>\<open>MutPerTrace\<close> is not negative and the
  product is below \<open>2 ^ 63\<close>. When the count is zero the mutator is not invoked
  and the queue is unchanged.
\<close>

theorem score_and_mutate_children:
  assumes "Check fl post guider trace eventTrace = (guider', eventTrace', Inr (new, gain))"
  shows "(0 < new \<longrightarrow>
            score_and_mutate fl post Mutate copyTrace f MutPerTrace (guider, ms, queue) trace eventTrace
              = Inr (guider',
                     snd (invocations Mutate trace eventTrace' (nat (int_mul new MutPerTrace)) ms),
                     queue @ children copyTrace f
                       (fst (invocations Mutate trace eventTrace' (nat (int_mul new MutPerTrace)) ms)))
          \<and> length (fst (invocations Mutate trace eventTrace' (nat (int_mul new MutPerTrace)) ms))
              = nat (int_mul new MutPerTrace))
       \<and> (0 < new \<and> 0 \<le> MutPerTrace \<and> new * MutPerTrace < 2 ^ 63
            \<longrightarrow> int_mul new MutPerTrace = new * MutPerTrace)
       \<and> (new \<le> 0 \<longrightarrow>
            score_and_mutate fl post Mutate copyTrace f MutPerTrace (guider, ms, queue) trace eventTrace
              = Inr (guider', ms, queue))"
proof -
  have a: "0 < new \<Longrightarrow>
            score_and_mutate fl post Mutate copyTrace f MutPerTrace (guider, ms, queue) trace eventTrace
              = Inr (guider',
                     snd (invocations Mutate trace eventTrace' (nat (int_mul new MutPerTrace)) ms),
                     queue @ children copyTrace f
                       (fst (invocations Mutate trace eventTrace' (nat (int_mul new MutPerTrace)) ms)))"
    using assms by (simp add: score_and_mutate_def Let_def mutate_loop_invocations
        del: mutate_loop.simps)
  have c: "0 < new \<and> 0 \<le> MutPerTrace \<and> new * MutPerTrace < 2 ^ 63
            \<Longrightarrow> int_mul new MutPerTrace = new * MutPerTrace"
    by (rule int_mul_in_range) auto
  have d: "new \<le> 0 \<Longrightarrow>
            score_and_mutate fl post Mutate copyTrace f MutPerTrace (guider, ms, queue) trace eventTrace
              = Inr (guider', ms, queue)"
    using assms by (simp add: score_and_mutate_def del: mutate_loop.simps)
  from a c d show ?thesis by (simp add: invocations_length)
qed

theorem score_and_mutate_children_witness:
  "Check fl0 post0 g0 [7] [] =
     (g0\<lparr>statesMap := Mapping.update 1 True (statesMap g0)\<rparr>, [reset_event], Inr (1, Quotient (OfInt 1) (OfInt 2)))
   \<and> (0::int) < 1 \<and> (0::int) \<le> 3 \<and> (1::int) * 3 < 2 ^ 63
   \<and> score_and_mutate fl0 post0 mut0 (\<lambda>t f. filter f t) (\<lambda>c. True) 3 (g0, 0, []) [7] []
       = Inr (g0\<lparr>statesMap := Mapping.update 1 True (statesMap g0)\<rparr>, 3, [[0, 7], [2, 7]])
   \<and> Check fl0 post_seen g0 [7] [] = (g0, [reset_event], Inr (0, Quotient (OfInt 0) (OfInt 2)))
   \<and> score_and_mutate fl0 post_seen mut0 (\<lambda>t f. filter f t) (\<lambda>c. True) 3 (g0, 0, []) [7] []
       = Inr (g0, 0, [])"
proof -
  have c: "Check fl0 post0 g0 [7] [] =
      (g0\<lparr>statesMap := Mapping.update 1 True (statesMap g0)\<rparr>, [reset_event], Inr (1, Quotient (OfInt 1) (OfInt 2)))"
    by (simp add: Check_def SendTrace_def Append_def marshal_list_def marshal_event_def
        reset_event_def post0_def g0_def recordTrace_def Let_def Mapping.size_def lookup_update'
        fl0_def)
  have c': "Check fl0 post_seen g0 [7] [] = (g0, [reset_event], Inr (0, Quotient (OfInt 0) (OfInt 2)))"
    by (simp add: Check_def SendTrace_def Append_def marshal_list_def marshal_event_def
        reset_event_def post_seen_def g0_def recordTrace_def Let_def Mapping.size_def lookup_update'
        fl0_def)
  have m: "int_mul 1 3 = 3" by (simp add: int_mul_def)
  have i: "invocations mut0 [7] [reset_event] 3 0 = ([([0, 7], True), ([1, 7], False), ([2, 7], True)], 3)"
    by (simp add: mut0_def numeral_3_eq_3)
  from score_and_mutate_children [OF c, of mut0 "\<lambda>t f. filter f t" "\<lambda>c. True" 3 0 "[]"]
    score_and_mutate_children [OF c', of mut0 "\<lambda>t f. filter f t" "\<lambda>c. True" 3 0 "[]"]
    c c' m i
  show ?thesis by (simp add: children_def)
qed


section \<open>The buffer of the pub/sub client is a queue\<close>

lemma fold_BufferMessage:
  "messageBuffer (fold (\<lambda>m c. BufferMessage c m) ms c) = messageBuffer c @ ms"
  by (induction ms arbitrary: c) (simp_all add: BufferMessage_def)

lemma fold_BufferMessage_eq:
  "fold (\<lambda>m c. BufferMessage c m) ms c = c\<lparr>messageBuffer := messageBuffer c @ ms\<rparr>"
  by (induction ms arbitrary: c) (simp_all add: BufferMessage_def)

lemma ReceiveMessage_buffered:
  "messageBuffer c = msg # rest \<Longrightarrow>
     ReceiveMessage c timeout outcome = ((msg, None), c\<lparr>messageBuffer := rest\<rparr>, [])"
  by (simp add: ReceiveMessage_def)

lemma receive_all_buffered:
  "length calls \<le> length (messageBuffer c) \<Longrightarrow>
     receive_all c calls =
       (map (\<lambda>m. (m, None)) (take (length calls) (messageBuffer c)),
        c\<lparr>messageBuffer := drop (length calls) (messageBuffer c)\<rparr>, [])"
proof (induction calls arbitrary: c)
  case Nil
  then show ?case by simp
next
  case (Cons call calls)
  obtain timeout outcome where call: "call = (timeout, outcome)" by (cases call)
  from Cons.prems obtain msg rest where buf: "messageBuffer c = msg # rest"
    by (cases "messageBuffer c") auto
  have r: "ReceiveMessage c timeout outcome = ((msg, None), c\<lparr>messageBuffer := rest\<rparr>, [])"
    using buf by (rule ReceiveMessage_buffered)
  have "length calls \<le> length (messageBuffer (c\<lparr>messageBuffer := rest\<rparr>))"
    using Cons.prems buf by simp
  from Cons.IH [OF this] show ?case
    using call r buf by simp
qed

text \<open>
  Claim C9. When the buffer of the client is not empty, \<open>ReceiveMessage\<close> returns its
  first message with no error and removes it from the buffer; nothing else of the
  client changes (the receiver is not started), the result does not depend on what
  the subscription would deliver or on the timeout, and no \<^verbatim>\<open>Ack\<close> or \<^verbatim>\<open>Nack\<close> is
  made. \<open>BufferMessage\<close> puts a message at the end of the buffer, so that calls of
  \<open>ReceiveMessage\<close>, as many as there are buffered messages at most, return the
  buffered messages in the order in which they were buffered.
\<close>

theorem ReceiveMessage_from_buffer:
  "(messageBuffer c = msg # rest \<longrightarrow>
      ReceiveMessage c timeout outcome = ((msg, None), c\<lparr>messageBuffer := rest\<rparr>, []))
   \<and> messageBuffer (BufferMessage c m) = messageBuffer c @ [m]
   \<and> (length calls \<le> length (messageBuffer c @ ms) \<longrightarrow>
        receive_all (fold (\<lambda>m c. BufferMessage c m) ms c) calls =
          (map (\<lambda>m. (m, None)) (take (length calls) (messageBuffer c @ ms)),
           c\<lparr>messageBuffer := drop (length calls) (messageBuffer c @ ms)\<rparr>, []))"
proof -
  have "length calls \<le> length (messageBuffer c @ ms) \<Longrightarrow>
        receive_all (fold (\<lambda>m c. BufferMessage c m) ms c) calls =
          (map (\<lambda>m. (m, None)) (take (length calls) (messageBuffer c @ ms)),
           c\<lparr>messageBuffer := drop (length calls) (messageBuffer c @ ms)\<rparr>, [])"
    using receive_all_buffered [of calls "fold (\<lambda>m c. BufferMessage c m) ms c"]
    by (simp add: fold_BufferMessage_eq)
  then show ?thesis
    by (simp add: ReceiveMessage_buffered BufferMessage_def)
qed

theorem ReceiveMessage_from_buffer_witness:
  "messageBuffer (BufferMessage client0 (Some msg_a)) = Some msg_a # []
   \<and> ReceiveMessage (BufferMessage client0 (Some msg_a)) 1000 (ContextDone DeadlineExceeded)
       = ((Some msg_a, None), client0, [])
   \<and> length [(1000, ContextDone DeadlineExceeded), (1000, MessageReceived (Some msg_a))]
       \<le> length (messageBuffer client0 @ [Some msg_a, Some msg_b])
   \<and> receive_all (fold (\<lambda>m c. BufferMessage c m) [Some msg_a, Some msg_b] client0)
        [(1000, ContextDone DeadlineExceeded), (1000, MessageReceived (Some msg_a))]
       = ([(Some msg_a, None), (Some msg_b, None)], client0, [])"
proof -
  have b: "messageBuffer (BufferMessage client0 (Some msg_a)) = Some msg_a # []"
    by (simp add: BufferMessage_def client0_def)
  have e: "(BufferMessage client0 (Some msg_a))\<lparr>messageBuffer := []\<rparr> = client0"
    by (simp add: BufferMessage_def client0_def)
  from ReceiveMessage_from_buffer [of "BufferMessage client0 (Some msg_a)" "Some msg_a" "[]"
      1000 "ContextDone DeadlineExceeded" None "[]" "[]"]
    ReceiveMessage_from_buffer [of client0 "Some msg_a" "[]" 0 MessageChanClosed None
      "[(1000, ContextDone DeadlineExceeded), (1000, MessageReceived (Some msg_a))]"
      "[Some msg_a, Some msg_b]"]
    b e
  show ?thesis by (simp add: client0_def)
qed

section \<open>Publishing with a timeout\<close>

text \<open>
  Claim C10. With a timeout that is zero or negative \<open>PublishMessage\<close> publishes
  under the context of the client itself, to which no deadline is added (the
  context of a new client has none). With a positive timeout it publishes under
  that context with the timeout; when then the publish fails and the context
  reports that its deadline is exceeded, the call returns the empty message id and
  a timeout error. The call returns an error exactly when the publish result is an
  error, and the server's message id otherwise.
\<close>

theorem PublishMessage_timeout_and_errors:
  "(timeout \<le> 0 \<longrightarrow> publish_context c timeout = ctx c)
   \<and> (timeout \<le> 0 \<and> ctx c = new_client_context \<longrightarrow> \<not> has_deadline (publish_context c timeout))
   \<and> (0 < timeout \<longrightarrow> publish_context c timeout = WithTimeout (ctx c) timeout)
   \<and> (0 < timeout \<and> Get w (publish_context c timeout) \<lparr>Data = data, Attributes = attributes\<rparr> = Inl e
        \<and> Err w (publish_context c timeout) = Some DeadlineExceeded
      \<longrightarrow> PublishMessage w c data attributes timeout = ([], Some (TimeoutPublishing e)))
   \<and> (snd (PublishMessage w c data attributes timeout) \<noteq> None
        \<longleftrightarrow> (\<exists>e. Get w (publish_context c timeout) \<lparr>Data = data, Attributes = attributes\<rparr> = Inl e))
   \<and> (\<forall>i. Get w (publish_context c timeout) \<lparr>Data = data, Attributes = attributes\<rparr> = Inr i
        \<longrightarrow> PublishMessage w c data attributes timeout = (i, None))"
  by (auto simp: PublishMessage_def publish_context_def new_client_context_def Let_def
      split: sum.splits)

theorem PublishMessage_timeout_and_errors_witness:
  "PublishMessage slow_service client0 [116] None 1
     = ([], Some (TimeoutPublishing ''context deadline exceeded''))
   \<and> PublishMessage slow_service client0 [116] None 0 = (''id-1'', None)
   \<and> PublishMessage slow_service client0 [116] None (- 1000000000) = (''id-1'', None)
   \<and> \<not> has_deadline (publish_context client0 0)
   \<and> PublishMessage refusing_service client0 [116] None 0
     = ([], Some (FailedToPublish ''permission denied''))"
proof -
  have g: "Get slow_service (publish_context client0 1) \<lparr>Data = [116], Attributes = None\<rparr>
             = Inl ''context deadline exceeded''"
    "Err slow_service (publish_context client0 1) = Some DeadlineExceeded"
    "Get slow_service (publish_context client0 0) \<lparr>Data = [116], Attributes = None\<rparr>
             = Inr ''id-1''"
    "Get slow_service (publish_context client0 (- 1000000000)) \<lparr>Data = [116], Attributes = None\<rparr>
             = Inr ''id-1''"
    "ctx client0 = new_client_context"
    by (simp_all add: slow_service_def publish_context_def client0_def new_client_context_def)
  have r: "PublishMessage refusing_service client0 [116] None 0
     = ([], Some (FailedToPublish ''permission denied''))"
    by (simp add: PublishMessage_def refusing_service_def Let_def)
  from PublishMessage_timeout_and_errors [of 1 client0 slow_service "[116]" None
      "''context deadline exceeded''"]
    PublishMessage_timeout_and_errors [of 0 client0 slow_service "[116]" None
      "''context deadline exceeded''"]
    PublishMessage_timeout_and_errors [of "- 1000000000" client0 slow_service "[116]" None
      "''context deadline exceeded''"]
    g r
  show ?thesis by (simp add: new_client_context_def)
qed


end
